theory Spec2Isabelle
  imports Main "HOL-Library.Word"
begin

section \<open>The file system seen by the module\<close>

text \<open>
  The module \<^verbatim>\<open>indexbdmv_parser\<close> only reads the file system: it tests whether a path
  exists, enumerates a directory tree, and reads the first bytes of one file. The file
  system is a finite tree. A path is the list of its components below the directory the
  tree stands for (the current directory for a relative path), so \<^verbatim>\<open>Path(d) / "BDMV" /
  "INDEX.BDMV"\<close> is \<open>d @ [''BDMV'', ''INDEX.BDMV'']\<close>. Names are compared byte for byte, as
  on a case-sensitive file system. Symbolic links, permissions, input/output failures and
  the components \<^verbatim>\<open>.\<close> and \<^verbatim>\<open>..\<close> are outside the model.
\<close>

type_synonym byte = "8 word"

type_synonym path = "string list"

datatype node = File "byte list" | Dir "(string \<times> node) list"

text \<open>Resolving a path from a node: a regular file has no children.\<close>

fun lookup :: "node \<Rightarrow> path \<Rightarrow> node option" where
  "lookup n [] = Some n"
| "lookup (File bs) (c # cs) = None"
| "lookup (Dir es) (c # cs) =
     (case map_of es c of None \<Rightarrow> None | Some n \<Rightarrow> lookup n cs)"

text \<open>
  \<^verbatim>\<open>os.path.exists\<close>: true for files and directories alike, and false, never an error,
  for a path that does not resolve.
\<close>

definition exists :: "node \<Rightarrow> path \<Rightarrow> bool" where
  "exists fs p = (lookup fs p \<noteq> None)"

text \<open>
  \<^verbatim>\<open>os.stat\<close>, with the error number of a failed resolution. The walk stops at the first
  component that does not resolve: below a regular file with \<^verbatim>\<open>ENOTDIR\<close>; in a directory
  that has no such entry with \<^verbatim>\<open>ENAMETOOLONG\<close> when the name is longer than \<^verbatim>\<open>NAME_MAX\<close>
  bytes and with \<^verbatim>\<open>ENOENT\<close> otherwise. The components after it are not looked at.
\<close>

datatype errno = ENOENT | ENOTDIR | ENAMETOOLONG

definition NAME_MAX :: nat where
  "NAME_MAX = 255"

fun os_stat :: "node \<Rightarrow> path \<Rightarrow> errno + node" where
  "os_stat n [] = Inr n"
| "os_stat (File bs) (c # cs) = Inl ENOTDIR"
| "os_stat (Dir es) (c # cs) =
     (case map_of es c of
        Some n \<Rightarrow> os_stat n cs
      | None \<Rightarrow> if NAME_MAX < length c then Inl ENAMETOOLONG else Inl ENOENT)"


text \<open>
  A directory listing has no two entries of the same name. The datatype does not enforce
  this, so it is a predicate on trees.
\<close>

fun wf_node :: "node \<Rightarrow> bool"
  and wf_entries :: "(string \<times> node) list \<Rightarrow> bool" where
  "wf_node (File bs) = True"
| "wf_node (Dir es) = (distinct (map fst es) \<and> wf_entries es)"
| "wf_entries [] = True"
| "wf_entries (e # es) = (wf_node (snd e) \<and> wf_entries es)"

text \<open>
  \<^verbatim>\<open>Path.rglob(name)\<close> for a name without wildcards is the pattern \<^verbatim>\<open>**/name\<close>: every
  directory of the tree is visited, the starting directory first and then each
  subdirectory in listing order, and in each visited directory the child called
  \<^verbatim>\<open>name\<close> is produced when it exists (a file or a directory). The paths computed
  here are relative to the starting directory.
\<close>

fun rglob_node :: "node \<Rightarrow> string \<Rightarrow> path list"
  and rglob_entries :: "(string \<times> node) list \<Rightarrow> string \<Rightarrow> path list" where
  "rglob_node (File bs) name = []"
| "rglob_node (Dir es) name =
     (if map_of es name \<noteq> None then [[name]] else []) @ rglob_entries es name"
| "rglob_entries [] name = []"
| "rglob_entries (e # es) name =
     map ((#) (fst e)) (rglob_node (snd e) name) @ rglob_entries es name"

text \<open>
  The paths the traversal yields from a starting path, in order; none when the starting
  path is not a directory of the tree.
\<close>

definition rglob :: "node \<Rightarrow> path \<Rightarrow> string \<Rightarrow> path list" where
  "rglob fs d name =
     (case lookup fs d of
        Some (Dir es) \<Rightarrow> map ((@) d) (rglob_node (Dir es) name)
      | _ \<Rightarrow> [])"

text \<open>
  \<^verbatim>\<open>str(path)\<close>: the components joined by a slash; the empty path prints as a dot.
  Only the emptiness of this text matters below (\<^verbatim>\<open>if not index_file\<close>).
\<close>

fun str_of_path :: "path \<Rightarrow> string" where
  "str_of_path [] = ''.''"
| "str_of_path [c] = c"
| "str_of_path (c # cs) = c @ ''/'' @ str_of_path cs"

section \<open>Errors\<close>

text \<open>
  The exceptions the module can meet: the one it raises itself, the one \<^verbatim>\<open>open\<close>
  raises on a directory, and the \<^verbatim>\<open>OSError\<close> that \<^verbatim>\<open>pathlib\<close> lets through, with its
  error number. \<open>UnicodeDecodeError\<close> is what a strict decode would raise. All of them
  derive from \<^verbatim>\<open>Exception\<close>.
\<close>

datatype error = FileNotFoundError | IsADirectoryError | UnicodeDecodeError | OSError errno

fun is_Exception :: "error \<Rightarrow> bool" where
  "is_Exception FileNotFoundError = True"
| "is_Exception IsADirectoryError = True"
| "is_Exception UnicodeDecodeError = True"
| "is_Exception (OSError e) = True"

section \<open>The tests of pathlib\<close>

text \<open>
  \<^verbatim>\<open>pathlib._ignore_error\<close>: the error numbers that \<^verbatim>\<open>Path.exists\<close> and \<^verbatim>\<open>Path.is_dir\<close>
  turn into \<^verbatim>\<open>False\<close> (\<^verbatim>\<open>EBADF\<close> and \<^verbatim>\<open>ELOOP\<close>, also ignored, do not arise here).
  Any other error of \<^verbatim>\<open>stat\<close> is raised again.
\<close>

fun ignore_error :: "errno \<Rightarrow> bool" where
  "ignore_error ENOENT = True"
| "ignore_error ENOTDIR = True"
| "ignore_error ENAMETOOLONG = False"

definition Path_exists :: "node \<Rightarrow> path \<Rightarrow> error + bool" where
  "Path_exists fs p =
     (case os_stat fs p of
        Inr n \<Rightarrow> Inr True
      | Inl e \<Rightarrow> if ignore_error e then Inr False else Inl (OSError e))"

definition Path_is_dir :: "node \<Rightarrow> path \<Rightarrow> error + bool" where
  "Path_is_dir fs p =
     (case os_stat fs p of
        Inr (Dir es) \<Rightarrow> Inr True
      | Inr (File bs) \<Rightarrow> Inr False
      | Inl e \<Rightarrow> if ignore_error e then Inr False else Inl (OSError e))"

text \<open>
  \<^verbatim>\<open>Path.rglob\<close> starts with \<^verbatim>\<open>is_dir\<close> on the starting path: an error of that test is
  raised at the first step of the generator, a path that is not a directory yields
  nothing, and a directory is traversed.
\<close>

definition Path_rglob :: "node \<Rightarrow> path \<Rightarrow> string \<Rightarrow> error + path list" where
  "Path_rglob fs d name =
     (case Path_is_dir fs d of
        Inl e \<Rightarrow> Inl e
      | Inr b \<Rightarrow> Inr (if b then rglob fs d name else []))"

section \<open>Decoding the header\<close>

text \<open>
  \<^verbatim>\<open>bytes.decode('ascii', errors='ignore')\<close>: a byte below 128 is the character of that
  code, any other byte is dropped. With \<^verbatim>\<open>errors='ignore'\<close> the call returns on every
  input.
\<close>

definition decode_ascii_ignore :: "byte list \<Rightarrow> error + string" where
  "decode_ascii_ignore bs = Inr (map (\<lambda>b. char_of (unat b)) (filter (\<lambda>b. b < 128) bs))"

text \<open>\<^verbatim>\<open>str.rstrip('\0')\<close>: the trailing NUL characters are removed.\<close>

definition rstrip_nul :: "string \<Rightarrow> string" where
  "rstrip_nul s = rev (dropWhile (\<lambda>c. c = CHR 0x00) (rev s))"

section \<open>The class IndexBDMV\<close>

record IndexBDMV =
  filename :: path
  is_uhd :: bool
  version :: "string option"

text \<open>
  The body of the \<^verbatim>\<open>with\<close> block of \<^verbatim>\<open>__init__\<close>, on the content of the opened file:
  eight bytes are read, the first four are decoded, and the result is compared with the
  eight-character signature. The handler of the bare \<^verbatim>\<open>except\<close> resets both fields.
\<close>

definition parse_header :: "byte list \<Rightarrow> string option \<times> bool" where
  "parse_header content =
     (let buffer = take 8 content in
      if length buffer \<ge> 4 then
        (let version_bytes = take 4 buffer in
         case decode_ascii_ignore version_bytes of
           Inr s \<Rightarrow> (let v = rstrip_nul s in (Some v, v = ''INDX0300''))
         | Inl e \<Rightarrow> (None, False))
      else (None, False))"

text \<open>
  \<^verbatim>\<open>IndexBDMV.__init__\<close>: a missing path raises \<^verbatim>\<open>FileNotFoundError\<close>; \<^verbatim>\<open>open\<close> on a
  directory raises \<^verbatim>\<open>IsADirectoryError\<close>; otherwise the object is built.
\<close>

definition IndexBDMV_init :: "node \<Rightarrow> path \<Rightarrow> error + IndexBDMV" where
  "IndexBDMV_init fs fname =
     (case lookup fs fname of
        None \<Rightarrow> Inl FileNotFoundError
      | Some (Dir es) \<Rightarrow> Inl IsADirectoryError
      | Some (File content) \<Rightarrow>
          (let (v, u) = parse_header content
           in Inr \<lparr>filename = fname, is_uhd = u, version = v\<rparr>))"

section \<open>find_index_file and is_uhd_disc\<close>

text \<open>
  \<^verbatim>\<open>find_index_file\<close> has no \<^verbatim>\<open>try\<close>: what \<^verbatim>\<open>Path.exists\<close> or the generator of
  \<^verbatim>\<open>Path.rglob\<close> raises leaves the function. Each \<^verbatim>\<open>for\<close> loop returns at its first
  path.
\<close>

definition find_index_file :: "node \<Rightarrow> path \<Rightarrow> error + path option" where
  "find_index_file fs directory =
     (case Path_exists fs (directory @ [''BDMV'', ''INDEX.BDMV'']) of
        Inl e \<Rightarrow> Inl e
      | Inr b1 \<Rightarrow>
          if b1 then Inr (Some (directory @ [''BDMV'', ''INDEX.BDMV'']))
          else (case Path_exists fs (directory @ [''INDEX.BDMV'']) of
            Inl e \<Rightarrow> Inl e
          | Inr b2 \<Rightarrow>
              if b2 then Inr (Some (directory @ [''INDEX.BDMV'']))
              else (case Path_rglob fs directory ''INDEX.BDMV'' of
                Inl e \<Rightarrow> Inl e
              | Inr (p # ps) \<Rightarrow> Inr (Some p)
              | Inr [] \<Rightarrow>
                  (case Path_rglob fs directory ''index.bdmv'' of
                     Inl e \<Rightarrow> Inl e
                   | Inr (p # ps) \<Rightarrow> Inr (Some p)
                   | Inr [] \<Rightarrow> Inr None))))"

text \<open>
  \<^verbatim>\<open>is_uhd_disc\<close>: the call of \<^verbatim>\<open>find_index_file\<close> stands before the \<^verbatim>\<open>try\<close>, so its
  error is the error of \<^verbatim>\<open>is_uhd_disc\<close>. \<^verbatim>\<open>not index_file\<close> holds for \<^verbatim>\<open>None\<close> and for
  the empty string; the \<^verbatim>\<open>try\<close> block around the constructor catches what derives from
  \<^verbatim>\<open>Exception\<close> and lets anything else through.
\<close>

definition is_uhd_disc :: "node \<Rightarrow> path \<Rightarrow> error + bool" where
  "is_uhd_disc fs directory =
     (case find_index_file fs directory of
        Inl e \<Rightarrow> Inl e
      | Inr None \<Rightarrow> Inr False
      | Inr (Some index_file) \<Rightarrow>
          if str_of_path index_file = [] then Inr False
          else (case IndexBDMV_init fs index_file of
                  Inr index \<Rightarrow> Inr (is_uhd index)
                | Inl e \<Rightarrow> if is_Exception e then Inr False else Inl e))"

section \<open>Facts about the file system\<close>

text \<open>Resolving a path in two steps.\<close>

lemma lookup_append:
  "lookup fs (d @ p) = (case lookup fs d of None \<Rightarrow> None | Some n \<Rightarrow> lookup n p)"
proof (induction d arbitrary: fs)
  case Nil
  show ?case by simp
next
  case (Cons c cs)
  show ?case
  proof (cases fs)
    case (File bs)
    then show ?thesis by simp
  next
    case (Dir es)
    then show ?thesis using Cons.IH by (simp split: option.splits)
  qed
qed

text \<open>
  In a well-formed tree every path the traversal produces resolves: for a directory
  listing, to the child it was found under.
\<close>

lemma rglob_node_sound:
  "wf_node n \<Longrightarrow> \<forall>p \<in> set (rglob_node n name). lookup n p \<noteq> None"
  and rglob_entries_sound:
  "wf_entries es \<Longrightarrow> \<forall>p \<in> set (rglob_entries es name).
      \<exists>c cs m. p = c # cs \<and> (c, m) \<in> set es \<and> lookup m cs \<noteq> None"
proof (induction n name and es name rule: rglob_node_rglob_entries.induct)
  case (1 bs name)
  show ?case by simp
next
  case (2 es name)
  show ?case
  proof (intro ballI)
    fix p
    note wf = \<open>wf_node (Dir es)\<close>
    assume p: "p \<in> set (rglob_node (Dir es) name)"
    from wf have d: "distinct (map fst es)" and we: "wf_entries es" by simp_all
    from p consider "p = [name]" "map_of es name \<noteq> None" | "p \<in> set (rglob_entries es name)"
      by (auto split: if_splits)
    then show "lookup (Dir es) p \<noteq> None"
    proof cases
      case 1
      then show ?thesis by (auto split: option.splits)
    next
      case 2
      with "2.IH" we obtain c cs m where "p = c # cs" "(c, m) \<in> set es" "lookup m cs \<noteq> None"
        by blast
      moreover from this d have "map_of es c = Some m" by simp
      ultimately show ?thesis by simp
    qed
  qed
next
  case (3 name)
  show ?case by simp
next
  case (4 e es name)
  show ?case
  proof (intro ballI)
    fix p
    note wf = \<open>wf_entries (e # es)\<close>
    assume p: "p \<in> set (rglob_entries (e # es) name)"
    from wf have w1: "wf_node (snd e)" and w2: "wf_entries es" by simp_all
    from p consider q where "p = fst e # q" "q \<in> set (rglob_node (snd e) name)"
      | "p \<in> set (rglob_entries es name)"
      by auto
    then show "\<exists>c cs m. p = c # cs \<and> (c, m) \<in> set (e # es) \<and> lookup m cs \<noteq> None"
    proof cases
      case 1
      with "4.IH" w1 have "lookup (snd e) q \<noteq> None" by blast
      with 1 show ?thesis by (intro exI [of _ "fst e"] exI [of _ q] exI [of _ "snd e"]) simp
    next
      case 2
      with "4.IH" w2 show ?thesis by fastforce
    qed
  qed
qed

text \<open>Well-formedness is inherited by every node a path resolves to.\<close>

lemma wf_entries_mem: "wf_entries es \<Longrightarrow> e \<in> set es \<Longrightarrow> wf_node (snd e)"
  by (induction es) auto

lemma wf_node_lookup: "wf_node n \<Longrightarrow> lookup n p = Some m \<Longrightarrow> wf_node m"
proof (induction n p rule: lookup.induct)
  case (1 n)
  then show ?case by simp
next
  case (2 bs c cs)
  then show ?case by simp
next
  case (3 es c cs)
  from "3.prems"(2) obtain k where k: "map_of es c = Some k" and m: "lookup k cs = Some m"
    by (auto split: option.splits)
  from k have "(c, k) \<in> set es" by (rule map_of_SomeD)
  with "3.prems"(1) have "wf_node k" using wf_entries_mem [of es "(c, k)"] by simp
  with "3.IH" k m show ?case by simp
qed

text \<open>The text of a path whose last component is not empty is not empty.\<close>

lemma str_of_path_snoc: "c \<noteq> [] \<Longrightarrow> str_of_path (p @ [c]) \<noteq> []"
  by (induction p rule: str_of_path.induct) auto

text \<open>Every path of a recursive search ends with the name searched for, and exists.\<close>

lemma rglob_node_last:
  "\<forall>p \<in> set (rglob_node n name). p \<noteq> [] \<and> last p = name"
  and rglob_entries_last:
  "\<forall>p \<in> set (rglob_entries es name). p \<noteq> [] \<and> last p = name"
  by (induction n name and es name rule: rglob_node_rglob_entries.induct) auto

lemma rglob_memD:
  assumes "p \<in> set (rglob fs d name)"
  shows "\<exists>es q. lookup fs d = Some (Dir es) \<and> q \<in> set (rglob_node (Dir es) name) \<and> p = d @ q"
proof (cases "lookup fs d")
  case None
  with assms show ?thesis by (simp add: rglob_def)
next
  case (Some n)
  with assms show ?thesis by (cases n) (auto simp: rglob_def simp del: rglob_node.simps)
qed

lemma rglob_last:
  assumes "p \<in> set (rglob fs d name)"
  shows "p \<noteq> [] \<and> last p = name"
proof -
  from assms obtain es q where "lookup fs d = Some (Dir es)"
    and q: "q \<in> set (rglob_node (Dir es) name)" and p: "p = d @ q"
    using rglob_memD by blast
  from q rglob_node_last [of "Dir es" name] have "q \<noteq> [] \<and> last q = name" by blast
  with p show ?thesis by simp
qed

lemma rglob_sound:
  assumes "wf_node fs" "p \<in> set (rglob fs d name)"
  shows "exists fs p"
proof -
  from assms(2) obtain es q where l: "lookup fs d = Some (Dir es)"
    and q: "q \<in> set (rglob_node (Dir es) name)" and p: "p = d @ q"
    using rglob_memD by blast
  from assms(1) l have "wf_node (Dir es)" by (rule wf_node_lookup)
  with q rglob_node_sound [of "Dir es" name] have "lookup (Dir es) q \<noteq> None" by blast
  with l p show ?thesis by (simp add: exists_def lookup_append)
qed

text \<open>
  Conversely, the recursive search misses nothing: every existing path below the starting
  directory whose last component is the name searched for is among its results.
\<close>

lemma rglob_node_complete:
  "\<forall>q. q \<noteq> [] \<and> last q = name \<and> lookup n q \<noteq> None \<longrightarrow> q \<in> set (rglob_node n name)"
  and rglob_entries_complete:
  "\<forall>c cs m. map_of es c = Some m \<and> cs \<noteq> [] \<and> last cs = name \<and> lookup m cs \<noteq> None
     \<longrightarrow> c # cs \<in> set (rglob_entries es name)"
proof (induction n name and es name rule: rglob_node_rglob_entries.induct)
  case (1 bs name)
  show ?case
  proof (intro allI impI)
    fix q
    assume "q \<noteq> [] \<and> last q = name \<and> lookup (File bs) q \<noteq> None"
    then show "q \<in> set (rglob_node (File bs) name)" by (cases q) simp_all
  qed
next
  case (2 es name)
  show ?case
  proof (intro allI impI)
    fix q
    assume a: "q \<noteq> [] \<and> last q = name \<and> lookup (Dir es) q \<noteq> None"
    then obtain c cs where q: "q = c # cs" by (cases q) auto
    with a obtain m where m: "map_of es c = Some m" and l: "lookup m cs \<noteq> None"
      by (auto split: option.splits)
    show "q \<in> set (rglob_node (Dir es) name)"
    proof (cases cs)
      case Nil
      with a q m show ?thesis by simp
    next
      case (Cons x xs)
      with a q have "cs \<noteq> []" "last cs = name" by simp_all
      with "2.IH" m l have "c # cs \<in> set (rglob_entries es name)" by blast
      with q show ?thesis by simp
    qed
  qed
next
  case (3 name)
  show ?case by simp
next
  case (4 e es name)
  show ?case
  proof (intro allI impI)
    fix c cs m
    assume a: "map_of (e # es) c = Some m \<and> cs \<noteq> [] \<and> last cs = name \<and> lookup m cs \<noteq> None"
    show "c # cs \<in> set (rglob_entries (e # es) name)"
    proof (cases "fst e = c")
      case True
      with a have "m = snd e" by (cases e) simp
      with a "4.IH"(1) have "cs \<in> set (rglob_node (snd e) name)" by blast
      with True show ?thesis by simp
    next
      case False
      with a have "map_of es c = Some m" by (cases e) simp
      with a "4.IH"(2) have "c # cs \<in> set (rglob_entries es name)" by blast
      then show ?thesis by simp
    qed
  qed
qed

lemma rglob_complete:
  assumes "lookup fs d = Some (Dir es)" and "q \<noteq> []" and "last q = name"
    and "exists fs (d @ q)"
  shows "d @ q \<in> set (rglob fs d name)"
proof -
  from assms(1,4) have "lookup (Dir es) q \<noteq> None"
    by (simp add: exists_def lookup_append)
  with assms(2,3) rglob_node_complete [of name "Dir es"]
  have "q \<in> set (rglob_node (Dir es) name)" by blast
  with assms(1) show ?thesis by (simp add: rglob_def del: rglob_node.simps)
qed

section \<open>Facts about the header\<close>

text \<open>
  Stripping only removes NULs from the end, and decoding drops bytes, so the version has
  at most as many characters as bytes were decoded: four, never the eight of the signature.
\<close>

lemma length_rstrip_nul: "length (rstrip_nul s) \<le> length s"
  unfolding rstrip_nul_def using length_dropWhile_le [of _ "rev s"] by simp

lemma rstrip_nul_decomp:
  "\<exists>k. s = rstrip_nul s @ replicate k (CHR 0x00)"
proof -
  have "rev s = takeWhile (\<lambda>c. c = CHR 0x00) (rev s) @ dropWhile (\<lambda>c. c = CHR 0x00) (rev s)"
    by simp
  moreover have "takeWhile (\<lambda>c. c = CHR 0x00) (rev s)
      = replicate (length (takeWhile (\<lambda>c. c = CHR 0x00) (rev s))) (CHR 0x00)"
    by (rule replicate_length_same [symmetric]) (auto dest: set_takeWhileD)
  ultimately have "rev s = replicate (length (takeWhile (\<lambda>c. c = CHR 0x00) (rev s))) (CHR 0x00)
      @ dropWhile (\<lambda>c. c = CHR 0x00) (rev s)"
    by simp
  then have "s = rev (replicate (length (takeWhile (\<lambda>c. c = CHR 0x00) (rev s))) (CHR 0x00)
      @ dropWhile (\<lambda>c. c = CHR 0x00) (rev s))"
    by (metis rev_rev_ident)
  then show ?thesis unfolding rstrip_nul_def by (auto simp del: takeWhile_dropWhile_id)
qed

lemma rstrip_nul_last:
  "rstrip_nul s \<noteq> [] \<Longrightarrow> last (rstrip_nul s) \<noteq> CHR 0x00"
  unfolding rstrip_nul_def
  using hd_dropWhile [of "\<lambda>c. c = CHR 0x00" "rev s"] by (simp add: last_rev)

lemma decode_ascii_ignore_length:
  "decode_ascii_ignore bs = Inr s \<Longrightarrow> length s \<le> length bs"
  by (auto simp: decode_ascii_ignore_def)

lemma parse_header_version_length:
  "parse_header content = (Some v, u) \<Longrightarrow> length v \<le> 4"
proof -
  assume a: "parse_header content = (Some v, u)"
  then obtain s where s: "decode_ascii_ignore (take 4 (take 8 content)) = Inr s" and v: "v = rstrip_nul s"
    by (auto simp: parse_header_def Let_def split: if_splits sum.splits)
  from s have "length s \<le> 4"
    using decode_ascii_ignore_length [OF s] by simp
  with v length_rstrip_nul [of s] show ?thesis by simp
qed

lemma parse_header_is_uhd_iff:
  "parse_header content = (v, u) \<Longrightarrow> u = (v = Some ''INDX0300'')"
  by (auto simp: parse_header_def Let_def split: if_splits sum.splits)

lemma parse_header_not_uhd: "snd (parse_header content) = False"
proof (cases "parse_header content")
  case (Pair v u)
  show ?thesis
  proof (cases v)
    case None
    with Pair parse_header_is_uhd_iff [OF Pair] show ?thesis by simp
  next
    case (Some s)
    with Pair have "length s \<le> 4" using parse_header_version_length by blast
    then have "s \<noteq> ''INDX0300''" by auto
    with Pair Some parse_header_is_uhd_iff [OF Pair] show ?thesis by simp
  qed
qed

section \<open>Facts about the tests and the search\<close>

text \<open>\<open>os_stat\<close> succeeds exactly on the paths of the tree, and fails at the first step.\<close>

lemma os_stat_Inr_iff: "os_stat n p = Inr m \<longleftrightarrow> lookup n p = Some m"
  by (induction n p rule: lookup.induct) (auto split: option.splits)

lemma os_stat_append:
  "os_stat n (d @ q) = (case os_stat n d of Inl e \<Rightarrow> Inl e | Inr m \<Rightarrow> os_stat m q)"
  by (induction n d rule: os_stat.induct) (auto split: option.splits)

lemma os_stat_short_names:
  "os_stat n q = Inl e \<Longrightarrow> \<forall>c \<in> set q. length c \<le> NAME_MAX \<Longrightarrow> e \<noteq> ENAMETOOLONG"
  by (induction n q rule: os_stat.induct) (auto split: option.splits if_splits)

lemma Path_exists_True: "exists fs p \<Longrightarrow> Path_exists fs p = Inr True"
proof -
  assume "exists fs p"
  then obtain m where "lookup fs p = Some m" by (auto simp: exists_def)
  then have "os_stat fs p = Inr m" by (simp add: os_stat_Inr_iff)
  then show ?thesis by (simp add: Path_exists_def)
qed

lemma Path_exists_Inr: "Path_exists fs p = Inr b \<Longrightarrow> b = exists fs p"
proof (cases "os_stat fs p")
  case (Inl e)
  assume a: "Path_exists fs p = Inr b"
  from Inl have "lookup fs p = None"
    using os_stat_Inr_iff [of fs p] by (cases "lookup fs p") auto
  with a Inl show ?thesis by (auto simp: Path_exists_def exists_def split: if_splits)
next
  case (Inr m)
  assume a: "Path_exists fs p = Inr b"
  from Inr have "lookup fs p = Some m" by (simp add: os_stat_Inr_iff)
  with a Inr show ?thesis by (auto simp: Path_exists_def exists_def)
qed

text \<open>
  Below a path that resolves, a missing path whose further names are short is reported
  absent; below a path that does not resolve, the error of that path decides.
\<close>

lemma Path_exists_below:
  assumes "lookup fs d = Some m" and "\<not> exists fs (d @ q)"
    and "\<forall>c \<in> set q. length c \<le> NAME_MAX"
  shows "Path_exists fs (d @ q) = Inr False"
proof -
  from assms(1) have d: "os_stat fs d = Inr m" by (simp add: os_stat_Inr_iff)
  from assms(2) have "lookup fs (d @ q) = None" by (simp add: exists_def)
  then obtain e where e: "os_stat fs (d @ q) = Inl e"
    using os_stat_Inr_iff [of fs "d @ q"] by (cases "os_stat fs (d @ q)") auto
  with d have "os_stat m q = Inl e" by (simp add: os_stat_append)
  from os_stat_short_names [OF this assms(3)] have "ignore_error e" by (cases e) simp_all
  with e show ?thesis by (simp add: Path_exists_def)
qed

lemma Path_exists_unresolved:
  assumes "os_stat fs d = Inl e"
  shows "Path_exists fs (d @ q) = (if ignore_error e then Inr False else Inl (OSError e))"
  using assms by (simp add: Path_exists_def os_stat_append)

lemma Path_rglob_resolved:
  assumes "lookup fs d = Some m"
  shows "Path_rglob fs d name = Inr (rglob fs d name)"
proof -
  from assms have "os_stat fs d = Inr m" by (simp add: os_stat_Inr_iff)
  with assms show ?thesis
    by (cases m) (simp_all add: Path_rglob_def Path_is_dir_def rglob_def del: rglob_node.simps)
qed

lemma Path_rglob_unresolved:
  assumes "os_stat fs d = Inl e"
  shows "Path_rglob fs d name = (if ignore_error e then Inr [] else Inl (OSError e))"
  using assms by (simp add: Path_rglob_def Path_is_dir_def)


lemma NAME_MAX_candidates:
  "\<forall>c \<in> set [''BDMV'', ''INDEX.BDMV'']. length c \<le> NAME_MAX"
  "\<forall>c \<in> set [''INDEX.BDMV'']. length c \<le> NAME_MAX"
  by (simp_all add: NAME_MAX_def)

text \<open>
  On a starting path that resolves no test raises, and the search is the cascade over the
  tree; on one that does not resolve, the error number of the failed resolution decides.
\<close>

lemma find_index_file_resolved:
  assumes "lookup fs d = Some m"
  shows "find_index_file fs d =
     Inr (if exists fs (d @ [''BDMV'', ''INDEX.BDMV''])
          then Some (d @ [''BDMV'', ''INDEX.BDMV''])
          else if exists fs (d @ [''INDEX.BDMV''])
          then Some (d @ [''INDEX.BDMV''])
          else case rglob fs d ''INDEX.BDMV'' of
            p # ps \<Rightarrow> Some p
          | [] \<Rightarrow> (case rglob fs d ''index.bdmv'' of
              p # ps \<Rightarrow> Some p
            | [] \<Rightarrow> None))"
proof -
  have e1: "Path_exists fs (d @ [''BDMV'', ''INDEX.BDMV''])
      = Inr (exists fs (d @ [''BDMV'', ''INDEX.BDMV'']))"
    using Path_exists_True [of fs "d @ [''BDMV'', ''INDEX.BDMV'']"]
      Path_exists_below [OF assms _ NAME_MAX_candidates(1)]
    by (cases "exists fs (d @ [''BDMV'', ''INDEX.BDMV''])") simp_all
  have e2: "Path_exists fs (d @ [''INDEX.BDMV'']) = Inr (exists fs (d @ [''INDEX.BDMV'']))"
    using Path_exists_True [of fs "d @ [''INDEX.BDMV'']"]
      Path_exists_below [OF assms _ NAME_MAX_candidates(2)]
    by (cases "exists fs (d @ [''INDEX.BDMV''])") simp_all
  show ?thesis
    by (simp add: find_index_file_def e1 e2 Path_rglob_resolved [OF assms] split: list.splits)
qed

lemma find_index_file_unresolved:
  assumes "os_stat fs d = Inl e"
  shows "find_index_file fs d = (if ignore_error e then Inr None else Inl (OSError e))"
  using assms
  by (simp add: find_index_file_def Path_exists_unresolved Path_rglob_unresolved)

lemma os_stat_unresolved:
  assumes "lookup fs d = None"
  shows "\<exists>e. os_stat fs d = Inl e"
  using assms os_stat_Inr_iff [of fs d] by (cases "os_stat fs d") auto

text \<open>
  A path returned by \<open>find_index_file\<close> comes from one of its four stages, so its last
  component is one of the two file names and its text is never empty: the test
  \<^verbatim>\<open>not index_file\<close> only ever fires on \<^verbatim>\<open>None\<close>.
\<close>

lemma find_index_file_cases:
  assumes "find_index_file fs d = Inr (Some f)"
  shows "f = d @ [''BDMV'', ''INDEX.BDMV''] \<and> exists fs f
       \<or> f = d @ [''INDEX.BDMV''] \<and> exists fs f
       \<or> f \<in> set (rglob fs d ''INDEX.BDMV'')
       \<or> f \<in> set (rglob fs d ''index.bdmv'')"
proof (cases "lookup fs d")
  case None
  then obtain e where "os_stat fs d = Inl e" using os_stat_unresolved by blast
  from find_index_file_unresolved [OF this] assms show ?thesis by (simp split: if_splits)
next
  case (Some m)
  from find_index_file_resolved [OF Some] assms show ?thesis
    by (auto split: if_splits list.splits)
qed

lemma find_index_file_str:
  assumes "find_index_file fs d = Inr (Some f)"
  shows "str_of_path f \<noteq> []"
proof -
  from find_index_file_cases [OF assms]
  consider "f = d @ [''BDMV'', ''INDEX.BDMV'']" | "f = d @ [''INDEX.BDMV'']"
    | "f \<in> set (rglob fs d ''INDEX.BDMV'')" | "f \<in> set (rglob fs d ''index.bdmv'')"
    by blast
  then have "f \<noteq> [] \<and> last f \<noteq> []"
  proof cases
    case 1
    then show ?thesis by simp
  next
    case 2
    then show ?thesis by simp
  next
    case 3
    from rglob_last [OF 3] show ?thesis by auto
  next
    case 4
    from rglob_last [OF 4] show ?thesis by auto
  qed
  then have "f = butlast f @ [last f]" "last f \<noteq> []" by simp_all
  then show ?thesis using str_of_path_snoc [of "last f" "butlast f"] by simp
qed

text \<open>
  When \<open>find_index_file\<close> returns \<^verbatim>\<open>None\<close> on a directory, no file of either name is
  anywhere below it.
\<close>

lemma find_index_file_None:
  assumes "find_index_file fs d = Inr None" and "lookup fs d = Some (Dir es)"
    and "q \<noteq> []" and "last q = ''INDEX.BDMV'' \<or> last q = ''index.bdmv''"
  shows "\<not> exists fs (d @ q)"
proof
  assume e: "exists fs (d @ q)"
  from assms(1) find_index_file_resolved [OF assms(2)]
  have "rglob fs d ''INDEX.BDMV'' = []" "rglob fs d ''index.bdmv'' = []"
    by (auto split: if_splits list.splits)
  moreover from assms(4) rglob_complete [OF assms(2,3) _ e]
  have "d @ q \<in> set (rglob fs d ''INDEX.BDMV'') \<or> d @ q \<in> set (rglob fs d ''index.bdmv'')"
    by blast
  ultimately show False by simp
qed

text \<open>
  The wrapper as one equation: an error of the search is passed on, and once the search
  has returned, the \<^verbatim>\<open>try\<close> around the constructor lets no error out.
\<close>

lemma is_uhd_disc_eq:
  "is_uhd_disc fs d =
     (case find_index_file fs d of
        Inl e \<Rightarrow> Inl e
      | Inr None \<Rightarrow> Inr False
      | Inr (Some f) \<Rightarrow>
          Inr (case IndexBDMV_init fs f of Inl e \<Rightarrow> False | Inr r \<Rightarrow> is_uhd r))"
proof (cases "find_index_file fs d")
  case (Inl e)
  then show ?thesis by (simp add: is_uhd_disc_def)
next
  case (Inr r)
  show ?thesis
  proof (cases r)
    case None
    with Inr show ?thesis by (simp add: is_uhd_disc_def)
  next
    case (Some f)
    have ex: "is_Exception e" for e by (cases e) simp_all
    from Inr Some have "find_index_file fs d = Inr (Some f)" by simp
    from Inr Some find_index_file_str [OF this] show ?thesis
      by (simp add: is_uhd_disc_def ex split: sum.splits)
  qed
qed

section \<open>Properties of the module\<close>

text \<open>
  C1. The specification's end-to-end scenario: the directory \<^verbatim>\<open>disc\<close> holds
  \<^verbatim>\<open>BDMV/INDEX.BDMV\<close> with the ten bytes \<^verbatim>\<open>INDX0300\x00\x00\<close>, and
  \<^verbatim>\<open>is_uhd_disc("disc")\<close> is expected to be true. The code returns false there: only
  four of the eight bytes read are decoded, so the version is \<^verbatim>\<open>INDX\<close>, which is then
  compared with the eight-character signature.
\<close>

theorem is_uhd_disc_uhd_sample:
  "is_uhd_disc
     (Dir [(''disc'', Dir [(''BDMV'', Dir [(''INDEX.BDMV'',
        File [0x49, 0x4E, 0x44, 0x58, 0x30, 0x33, 0x30, 0x30, 0x00, 0x00])])])])
     [''disc''] = Inr False"
  by code_simp

text \<open>
  C2. For every existing regular file the constructor returns, the version is absent or
  has at most four characters, it is never the eight-character signature, and
  \<open>is_uhd\<close> is false whatever the content.
\<close>

theorem IndexBDMV_init_version_short:
  assumes "lookup fs p = Some (File content)"
  shows "\<exists>r. IndexBDMV_init fs p = Inr r
    \<and> (version r = None \<or> (\<exists>s. version r = Some s \<and> length s \<le> 4))
    \<and> version r \<noteq> Some ''INDX0300''
    \<and> \<not> is_uhd r"
proof -
  obtain v u where vu: "parse_header content = (v, u)" by (cases "parse_header content")
  with assms have r: "IndexBDMV_init fs p = Inr \<lparr>filename = p, is_uhd = u, version = v\<rparr>"
    by (simp add: IndexBDMV_init_def)
  have u: "\<not> u" using parse_header_not_uhd [of content] vu by simp
  have len: "version \<lparr>filename = p, is_uhd = u, version = v\<rparr> = None \<or>
      (\<exists>s. version \<lparr>filename = p, is_uhd = u, version = v\<rparr> = Some s \<and> length s \<le> 4)"
    using vu parse_header_version_length [of content _ u] by (cases v) auto
  have ne: "v \<noteq> Some ''INDX0300''"
    using parse_header_is_uhd_iff [OF vu] u by simp
  from r u len ne show ?thesis by simp
qed

theorem IndexBDMV_init_version_short_witness:
  "lookup (Dir [(''INDEX.BDMV'', File [0x49, 0x4E, 0x44, 0x58, 0x30, 0x33, 0x30, 0x30])])
      [''INDEX.BDMV''] = Some (File [0x49, 0x4E, 0x44, 0x58, 0x30, 0x33, 0x30, 0x30])
   \<and> (\<exists>r. IndexBDMV_init
        (Dir [(''INDEX.BDMV'', File [0x49, 0x4E, 0x44, 0x58, 0x30, 0x33, 0x30, 0x30])])
        [''INDEX.BDMV''] = Inr r
      \<and> (version r = None \<or> (\<exists>s. version r = Some s \<and> length s \<le> 4))
      \<and> version r \<noteq> Some ''INDX0300''
      \<and> \<not> is_uhd r)"
proof -
  have h: "lookup (Dir [(''INDEX.BDMV'', File [0x49, 0x4E, 0x44, 0x58, 0x30, 0x33, 0x30, 0x30])])
      [''INDEX.BDMV''] = Some (File [0x49, 0x4E, 0x44, 0x58, 0x30, 0x33, 0x30, 0x30])"
    by simp
  from h IndexBDMV_init_version_short [OF h] show ?thesis by (rule conjI)
qed

text \<open>
  C3. \<open>is_uhd_disc\<close> is meant to return a boolean on every directory path and never to
  raise. It does not: the search runs before the \<^verbatim>\<open>try\<close>, and on a directory whose name
  is longer than \<^verbatim>\<open>NAME_MAX\<close> bytes the first existence test raises \<^verbatim>\<open>OSError\<close>
  (\<^verbatim>\<open>ENAMETOOLONG\<close>), which leaves \<open>is_uhd_disc\<close>. Here the name is 256 times the
  letter a, in a current directory that holds an ordinary disc.
\<close>

theorem is_uhd_disc_long_name_raises:
  "is_uhd_disc
     (Dir [(''disc'', Dir [(''BDMV'', Dir [(''INDEX.BDMV'',
        File [0x49, 0x4E, 0x44, 0x58, 0x30, 0x32, 0x30, 0x30])])])])
     [replicate 256 (CHR ''a'')] = Inl (OSError ENAMETOOLONG)"
  by code_simp



text \<open>
  C5. In every object the constructor returns, \<open>is_uhd\<close> holds exactly when the version
  is the string \<^verbatim>\<open>INDX0300\<close>.
\<close>

theorem IndexBDMV_init_is_uhd_iff:
  assumes "IndexBDMV_init fs p = Inr r"
  shows "is_uhd r \<longleftrightarrow> version r = Some ''INDX0300''"
proof -
  from assms obtain content where c: "lookup fs p = Some (File content)"
    by (auto simp: IndexBDMV_init_def split: option.splits node.splits)
  obtain v u where vu: "parse_header content = (v, u)" by (cases "parse_header content")
  with assms c have "r = \<lparr>filename = p, is_uhd = u, version = v\<rparr>"
    by (simp add: IndexBDMV_init_def)
  with parse_header_is_uhd_iff [OF vu] show ?thesis by simp
qed

theorem IndexBDMV_init_is_uhd_iff_witness:
  "IndexBDMV_init (Dir [(''INDEX.BDMV'', File [0x49, 0x4E, 0x44, 0x58, 0x30, 0x32, 0x30, 0x30])])
      [''INDEX.BDMV'']
     = Inr \<lparr>filename = [''INDEX.BDMV''], is_uhd = False, version = Some ''INDX''\<rparr>
   \<and> (is_uhd \<lparr>filename = [''INDEX.BDMV''], is_uhd = False, version = Some ''INDX''\<rparr>
        \<longleftrightarrow> version \<lparr>filename = [''INDEX.BDMV''], is_uhd = False, version = Some ''INDX''\<rparr>
            = Some ''INDX0300'')"
proof -
  have h: "IndexBDMV_init
      (Dir [(''INDEX.BDMV'', File [0x49, 0x4E, 0x44, 0x58, 0x30, 0x32, 0x30, 0x30])])
      [''INDEX.BDMV'']
     = Inr \<lparr>filename = [''INDEX.BDMV''], is_uhd = False, version = Some ''INDX''\<rparr>"
    by code_simp
  from h IndexBDMV_init_is_uhd_iff [OF h] show ?thesis by (rule conjI)
qed

text \<open>
  C6. The constructor on a path that does not exist raises \<^verbatim>\<open>FileNotFoundError\<close>, and
  the error is the result the caller receives.
\<close>

theorem IndexBDMV_init_not_found:
  assumes "\<not> exists fs p"
  shows "IndexBDMV_init fs p = Inl FileNotFoundError"
  using assms by (simp add: IndexBDMV_init_def exists_def)

theorem IndexBDMV_init_not_found_witness:
  "\<not> exists (Dir [(''BDMV'', Dir [])]) [''BDMV'', ''INDEX.BDMV'']
   \<and> IndexBDMV_init (Dir [(''BDMV'', Dir [])]) [''BDMV'', ''INDEX.BDMV''] = Inl FileNotFoundError"
proof -
  have h: "\<not> exists (Dir [(''BDMV'', Dir [])]) [''BDMV'', ''INDEX.BDMV'']"
    by (simp add: exists_def)
  from h IndexBDMV_init_not_found [OF h] show ?thesis by (rule conjI)
qed

text \<open>
  C7. For an existing regular file of fewer than four bytes, the empty file included,
  the constructor returns an object with no version and \<open>is_uhd\<close> false.
\<close>

theorem IndexBDMV_init_short_file:
  assumes "lookup fs p = Some (File content)" and "length content < 4"
  shows "IndexBDMV_init fs p = Inr \<lparr>filename = p, is_uhd = False, version = None\<rparr>"
  using assms by (simp add: IndexBDMV_init_def parse_header_def)

theorem IndexBDMV_init_short_file_witness:
  "(lookup (Dir [(''INDEX.BDMV'', File [])]) [''INDEX.BDMV''] = Some (File [])
    \<and> length ([] :: byte list) < 4
    \<and> IndexBDMV_init (Dir [(''INDEX.BDMV'', File [])]) [''INDEX.BDMV'']
        = Inr \<lparr>filename = [''INDEX.BDMV''], is_uhd = False, version = None\<rparr>)
   \<and> (lookup (Dir [(''INDEX.BDMV'', File [0x49, 0x4E, 0x44])]) [''INDEX.BDMV'']
        = Some (File [0x49, 0x4E, 0x44])
    \<and> length ([0x49, 0x4E, 0x44] :: byte list) < 4
    \<and> IndexBDMV_init (Dir [(''INDEX.BDMV'', File [0x49, 0x4E, 0x44])]) [''INDEX.BDMV'']
        = Inr \<lparr>filename = [''INDEX.BDMV''], is_uhd = False, version = None\<rparr>)"
proof -
  have a: "lookup (Dir [(''INDEX.BDMV'', File [])]) [''INDEX.BDMV''] = Some (File [])"
    by simp
  have a': "length ([] :: byte list) < 4" by simp
  have b: "lookup (Dir [(''INDEX.BDMV'', File [0x49, 0x4E, 0x44])]) [''INDEX.BDMV'']
        = Some (File [0x49, 0x4E, 0x44])"
    by simp
  have b': "length ([0x49, 0x4E, 0x44] :: byte list) < 4" by simp
  from a a' IndexBDMV_init_short_file [OF a a'] b b' IndexBDMV_init_short_file [OF b b']
  show ?thesis by blast
qed

text \<open>
  C8. For an existing regular file of at least four bytes the constructor returns, and
  the version is the lossy ASCII decoding of the first four bytes (bytes of 128 and above
  dropped, the decoding itself never failing) with the trailing NUL characters removed:
  the decoded text is the version followed by NULs only, and the version does not end
  with a NUL. When the first four bytes are all zero the version is the empty string,
  which is not \<^verbatim>\<open>INDX0300\<close>, and \<open>is_uhd\<close> is false.
\<close>

theorem IndexBDMV_init_version_tag:
  assumes "lookup fs p = Some (File content)" and "4 \<le> length content"
  shows "\<exists>r v. IndexBDMV_init fs p = Inr r \<and> version r = Some v
    \<and> decode_ascii_ignore (take 4 content)
        = Inr (map (\<lambda>b. char_of (unat b)) (filter (\<lambda>b. b < 128) (take 4 content)))
    \<and> v = rstrip_nul (map (\<lambda>b. char_of (unat b)) (filter (\<lambda>b. b < 128) (take 4 content)))
    \<and> (\<exists>k. map (\<lambda>b. char_of (unat b)) (filter (\<lambda>b. b < 128) (take 4 content))
           = v @ replicate k (CHR 0x00))
    \<and> (v = [] \<or> last v \<noteq> CHR 0x00)
    \<and> (take 4 content = [0, 0, 0, 0] \<longrightarrow> v = [] \<and> v \<noteq> ''INDX0300'' \<and> \<not> is_uhd r)"
proof -
  let ?s = "map (\<lambda>b. char_of (unat b)) (filter (\<lambda>b. b < 128) (take 4 content))"
  let ?v = "rstrip_nul ?s"
  let ?r = "\<lparr>filename = p, is_uhd = (?v = ''INDX0300''), version = Some ?v\<rparr>"
  from assms(2) have t: "take 4 (take 8 content) = take 4 content" by simp
  from assms have r: "IndexBDMV_init fs p = Inr ?r"
    by (simp add: IndexBDMV_init_def parse_header_def decode_ascii_ignore_def t Let_def)
  have d: "decode_ascii_ignore (take 4 content) = Inr ?s"
    by (simp add: decode_ascii_ignore_def)
  have k: "\<exists>k. ?s = ?v @ replicate k (CHR 0x00)"
    by (rule rstrip_nul_decomp)
  have l: "?v = [] \<or> last ?v \<noteq> CHR 0x00"
    using rstrip_nul_last [of ?s] by auto
  have z: "take 4 content = [0, 0, 0, 0] \<longrightarrow> ?v = [] \<and> ?v \<noteq> ''INDX0300'' \<and> \<not> is_uhd ?r"
    by (simp add: rstrip_nul_def char_of_def)
  from r d k l z show ?thesis by (intro exI [of _ ?r] exI [of _ ?v]) simp
qed

theorem IndexBDMV_init_version_tag_witness:
  "lookup (Dir [(''INDEX.BDMV'', File [0, 0, 0, 0, 0x30, 0x33])]) [''INDEX.BDMV'']
      = Some (File [0, 0, 0, 0, 0x30, 0x33])
   \<and> 4 \<le> length ([0, 0, 0, 0, 0x30, 0x33] :: byte list)
   \<and> take 4 ([0, 0, 0, 0, 0x30, 0x33] :: byte list) = [0, 0, 0, 0]
   \<and> (\<exists>r. IndexBDMV_init (Dir [(''INDEX.BDMV'', File [0, 0, 0, 0, 0x30, 0x33])]) [''INDEX.BDMV'']
          = Inr r \<and> version r = Some [] \<and> \<not> is_uhd r)"
proof -
  have a: "lookup (Dir [(''INDEX.BDMV'', File [0, 0, 0, 0, 0x30, 0x33])]) [''INDEX.BDMV'']
      = Some (File [0, 0, 0, 0, 0x30, 0x33])"
    by simp
  have b: "4 \<le> length ([0, 0, 0, 0, 0x30, 0x33] :: byte list)" by simp
  have c: "take 4 ([0, 0, 0, 0, 0x30, 0x33] :: byte list) = [0, 0, 0, 0]" by simp
  from IndexBDMV_init_version_tag [OF a b]
  obtain r v where r: "IndexBDMV_init (Dir [(''INDEX.BDMV'', File [0, 0, 0, 0, 0x30, 0x33])])
      [''INDEX.BDMV''] = Inr r"
    and v: "version r = Some v"
    and z: "take 4 ([0, 0, 0, 0, 0x30, 0x33] :: byte list) = [0, 0, 0, 0]
        \<longrightarrow> v = [] \<and> v \<noteq> ''INDX0300'' \<and> \<not> is_uhd r"
    by blast
  from z c have "v = []" "\<not> is_uhd r" by simp_all
  with r v have "\<exists>r. IndexBDMV_init (Dir [(''INDEX.BDMV'', File [0, 0, 0, 0, 0x30, 0x33])])
      [''INDEX.BDMV''] = Inr r \<and> version r = Some [] \<and> \<not> is_uhd r"
    by (intro exI [of _ r]) simp
  with a b c show ?thesis by (intro conjI)
qed




text \<open>
  C10. On a file system whose directories list each name once, a path returned by
  \<open>find_index_file\<close> exists.
\<close>

theorem find_index_file_exists:
  assumes "wf_node fs" and "find_index_file fs d = Inr (Some p)"
  shows "exists fs p"
proof -
  from find_index_file_cases [OF assms(2)]
  consider "exists fs p" | "p \<in> set (rglob fs d ''INDEX.BDMV'')"
    | "p \<in> set (rglob fs d ''index.bdmv'')"
    by blast
  then show ?thesis
  proof cases
    case 1
    then show ?thesis .
  next
    case 2
    with assms(1) show ?thesis by (rule rglob_sound)
  next
    case 3
    with assms(1) show ?thesis by (rule rglob_sound)
  qed
qed

theorem find_index_file_exists_witness:
  "wf_node (Dir [(''disc'', Dir [(''a'', File [1]), (''b'', Dir [(''INDEX.BDMV'', File [2])])])])
   \<and> find_index_file
        (Dir [(''disc'', Dir [(''a'', File [1]), (''b'', Dir [(''INDEX.BDMV'', File [2])])])])
        [''disc''] = Inr (Some [''disc'', ''b'', ''INDEX.BDMV''])
   \<and> exists (Dir [(''disc'', Dir [(''a'', File [1]), (''b'', Dir [(''INDEX.BDMV'', File [2])])])])
        [''disc'', ''b'', ''INDEX.BDMV'']"
proof -
  let ?fs = "Dir [(''disc'', Dir [(''a'', File [1]), (''b'', Dir [(''INDEX.BDMV'', File [2])])])]"
  have a: "wf_node ?fs" by simp
  have b: "find_index_file ?fs [''disc''] = Inr (Some [''disc'', ''b'', ''INDEX.BDMV''])"
    by code_simp
  from a b find_index_file_exists [OF a b] show ?thesis by blast
qed

end
